theory Spec2Isabelle
  imports Complex_Main "HOL-Library.Char_ord" "HOL-Library.List_Lexorder"
begin

section \<open>The power-line loss harness (scratch/powerline\_loss\_test.py)\<close>

text \<open>
  The script builds a synthetic landscape, a per-cell value map with one elevated column
  (the power line), runs the simulator, and reduces the replicate outputs to a hit rate and
  loss statistics. The simulator is external; its output folder is a parameter of the model.

  Numbers: Python integers are \<open>int\<close>. NumPy floats are read as the real numbers they
  denote and their arithmetic as exact real arithmetic; NaN and the infinities are not
  modelled. The values the script itself produces (1.0, 100.0 and their short sums) are
  small integers, on which binary floating point is exact.
\<close>

subsection \<open>Errors and arrays\<close>

datatype py_error = ValueError | IndexError | RuntimeError | ZeroDivisionError | OSError

text \<open>
  A NumPy array of at most two dimensions. A two-dimensional array is its shape together
  with its indexing function, read only inside the shape; a one-dimensional array is the
  list of its entries.
\<close>

datatype nparray =
    Arr0 real
  | Arr1 "real list"
  | Arr2 nat nat "nat \<Rightarrow> nat \<Rightarrow> real"

text \<open>The rows of an array as lists; an array of fewer dimensions is read as a single row.\<close>

fun to_rows :: "nparray \<Rightarrow> real list list" where
  "to_rows (Arr2 r c f) = map (\<lambda>i. map (\<lambda>j. f i j) [0..<c]) [0..<r]"
| "to_rows (Arr1 xs) = [xs]"
| "to_rows (Arr0 x) = [[x]]"

text \<open>
  The largest array index of a 64-bit platform, and the size in bytes that NumPy checks
  against it when it creates a float32 array: four bytes times the dimensions, those equal
  to zero left out.
\<close>

definition max_intp :: int where
  "max_intp = 2 ^ 63 - 1"

definition array_bytes :: "int \<Rightarrow> int \<Rightarrow> int" where
  "array_bytes nrows ncols =
     4 * (if nrows = 0 then 1 else nrows) * (if ncols = 0 then 1 else ncols)"

text \<open>
  \<open>np.ones((nrows, ncols), dtype=np.float32)\<close>: ValueError for a negative dimension, for a
  dimension beyond \<open>max_intp\<close> and for a size in bytes beyond \<open>max_intp\<close>. Whether the
  machine has the memory for an array within these limits is not modelled.
\<close>

definition np_ones :: "int \<Rightarrow> int \<Rightarrow> py_error + nparray" where
  "np_ones nrows ncols =
     (if max_intp < nrows \<or> max_intp < ncols then Inl ValueError
      else if nrows < 0 \<or> ncols < 0 then Inl ValueError
      else if max_intp < array_bytes nrows ncols then Inl ValueError
      else Inr (Arr2 (nat nrows) (nat ncols) (\<lambda>i j. 1)))"

text \<open>
  An integer index into an axis of size \<open>n\<close>: a negative index counts from the end, and an
  index outside \<open>-n \<le> j < n\<close> raises IndexError.
\<close>

definition norm_index :: "nat \<Rightarrow> int \<Rightarrow> py_error + nat" where
  "norm_index n j =
     (if 0 \<le> j \<and> j < int n then Inr (nat j)
      else if - int n \<le> j \<and> j < 0 then Inr (nat (j + int n))
      else Inl IndexError)"

text \<open>\<open>a[:, j]\<close>: the column as a one-dimensional array; too many indices for fewer dimensions.\<close>

fun get_column :: "nparray \<Rightarrow> int \<Rightarrow> py_error + real list" where
  "get_column (Arr2 r c f) j =
     (case norm_index c j of
        Inl e \<Rightarrow> Inl e
      | Inr k \<Rightarrow> Inr (map (\<lambda>i. f i k) [0..<r]))"
| "get_column (Arr1 xs) j = Inl IndexError"
| "get_column (Arr0 x) j = Inl IndexError"

text \<open>\<open>a[:, j] = v\<close>: every cell of the column is overwritten.\<close>

fun set_column :: "nparray \<Rightarrow> int \<Rightarrow> real \<Rightarrow> py_error + nparray" where
  "set_column (Arr2 r c f) j v =
     (case norm_index c j of
        Inl e \<Rightarrow> Inl e
      | Inr k \<Rightarrow> Inr (Arr2 r c (\<lambda>i j'. if j' = k then v else f i j')))"
| "set_column (Arr1 xs) j v = Inl IndexError"
| "set_column (Arr0 x) j v = Inl IndexError"

text \<open>
  \<open>vals[mask]\<close> with a boolean mask: the entries at the true positions, in order; a mask of
  another length raises IndexError.
\<close>

definition bool_index :: "real list \<Rightarrow> bool list \<Rightarrow> py_error + real list" where
  "bool_index vals flags =
     (if length flags \<noteq> length vals then Inl IndexError
      else Inr (map fst (filter snd (zip vals flags))))"

subsection \<open>Text output\<close>

definition newline :: char where
  "newline = CHR 0x0A"

definition digit_char :: "nat \<Rightarrow> char" where
  "digit_char d = ''0123456789'' ! d"

text \<open>The decimal digits of a natural number, and \<open>str\<close> of an integer.\<close>

fun digits_of :: "nat \<Rightarrow> string" where
  "digits_of n =
     (if n < 10 then [digit_char n] else digits_of (n div 10) @ [digit_char (n mod 10)])"

declare digits_of.simps [simp del]

definition str_int :: "int \<Rightarrow> string" where
  "str_int i = (if i < 0 then ''-'' @ digits_of (nat (- i)) else digits_of (nat i))"

text \<open>\<open>sep.join(xs)\<close>.\<close>

fun join :: "string \<Rightarrow> string list \<Rightarrow> string" where
  "join sep [] = []"
| "join sep [x] = x"
| "join sep (x # y # ys) = x @ sep @ join sep (y # ys)"

text \<open>
  The format \<open>%.1f\<close>: the value rounded to one decimal place, ties to the even digit, written
  with its sign, its integer digits, a point and one decimal digit.
\<close>

definition round_half_even :: "real \<Rightarrow> int" where
  "round_half_even x =
     (let f = \<lfloor>x\<rfloor>; d = x - of_int f
      in if d < 1 / 2 then f else if 1 / 2 < d then f + 1 else if even f then f else f + 1)"

definition format_1f :: "real \<Rightarrow> string" where
  "format_1f x =
     (let t = nat (round_half_even (\<bar>x\<bar> * 10))
      in (if x < 0 then ''-'' else []) @ digits_of (t div 10) @ ''.'' @ digits_of (t mod 10))"

text \<open>
  \<open>np.savetxt(path, a, fmt="%.1f", delimiter=" ")\<close>, as the text it writes: one line per row,
  a one-dimensional array as one value per line; an array without dimensions raises ValueError.
\<close>

fun savetxt :: "nparray \<Rightarrow> py_error + string" where
  "savetxt (Arr2 r c f) =
     Inr (concat (map (\<lambda>row. join '' '' (map format_1f row) @ [newline]) (to_rows (Arr2 r c f))))"
| "savetxt (Arr1 xs) = Inr (concat (map (\<lambda>x. format_1f x @ [newline]) xs))"
| "savetxt (Arr0 x) = Inl ValueError"

subsection \<open>The landscape files\<close>

text \<open>\<open>build_forest_asc\<close>, as the text written to Forest.asc.\<close>

definition build_forest_asc :: "int \<Rightarrow> int \<Rightarrow> string" where
  "build_forest_asc nrows ncols =
     (let row_values = join '' '' (replicate (nat ncols) ''1'')
      in ''ncols '' @ str_int ncols @ [newline]
       @ ''nrows '' @ str_int nrows @ [newline]
       @ ''xllcorner 0'' @ [newline]
       @ ''yllcorner 0'' @ [newline]
       @ ''cellsize 100'' @ [newline]
       @ ''NODATA_value -9999'' @ [newline]
       @ concat (replicate (nat nrows) (row_values @ [newline])))"

definition csv_header :: "string list" where
  "csv_header = [''fueltype'', ''mon'', ''jd'', ''M'', ''jd_min'', ''lat'', ''lon'', ''elev'',
     ''ffmc'', ''ws'', ''waz'', ''bui'', ''ps'', ''saz'', ''pc'', ''pdf'', ''gfl'', ''cur'',
     ''time'', ''pattern'']"

text \<open>The record written for every cell, each field as the text the CSV writer gives it.\<close>

definition csv_row :: "string list" where
  "csv_row = [''C1'', '''', '''', '''', '''', ''51.0'', ''-115.0'', ''0'',
     '''', '''', '''', '''', ''0'', ''0'',
     '''', '''', ''0.75'', '''', ''20'', '''']"

text \<open>
  \<open>writer.writerow\<close> for fields that need no quoting (none here holds a comma, a quote or a
  line break): the fields joined by commas, ended by carriage return and line feed.
\<close>

definition writerow :: "string list \<Rightarrow> string" where
  "writerow cells = join '','' cells @ [CHR 0x0D, newline]"

text \<open>\<open>build_data_csv\<close>, as the text written to Data.csv.\<close>

definition build_data_csv :: "int \<Rightarrow> int \<Rightarrow> string" where
  "build_data_csv nrows ncols =
     (let total_cells = nrows * ncols
      in writerow csv_header @ concat (replicate (nat total_cells) (writerow csv_row)))"

subsection \<open>The value map\<close>

definition powerline_col_index :: "int \<Rightarrow> int" where
  "powerline_col_index ncols = ncols div 2 - 1"

text \<open>
  \<open>build_powerline_values\<close>: ones everywhere, 100 in the power-line column. The result is
  the text written to values100x100.csv together with the array returned.
\<close>

definition build_powerline_values :: "int \<Rightarrow> int \<Rightarrow> py_error + (string \<times> nparray)" where
  "build_powerline_values nrows ncols =
     (case np_ones nrows ncols of
        Inl e \<Rightarrow> Inl e
      | Inr ones \<Rightarrow>
          (case set_column ones (powerline_col_index ncols) 100 of
             Inl e \<Rightarrow> Inl e
           | Inr values \<Rightarrow>
               (case savetxt values of
                  Inl e \<Rightarrow> Inl e
                | Inr values_file \<Rightarrow> Inr (values_file, values))))"

subsection \<open>Locating a replicate's final grid\<close>

text \<open>
  The simulator's output folder: for each replicate index the names in
  \<open>Grids/Grids\<close> followed by the index (none when the folder does not exist), and what
  \<open>np.loadtxt\<close> returns for a file there.
\<close>

record outputs =
  listing :: "int \<Rightarrow> string list"
  loadtxt :: "int \<Rightarrow> string \<Rightarrow> py_error + nparray"

text \<open>The glob pattern \<open>ForestGrid*.csv\<close>.\<close>

definition forest_grid_name :: "string \<Rightarrow> bool" where
  "forest_grid_name name \<longleftrightarrow>
     14 \<le> length name \<and> take 10 name = ''ForestGrid''
       \<and> drop (length name - 4) name = ''.csv''"

definition get_last_forest_grid_for_sim :: "outputs \<Rightarrow> int \<Rightarrow> py_error + string" where
  "get_last_forest_grid_for_sim out sim_index =
     (let forest_files = sort (filter forest_grid_name (listing out sim_index))
      in if forest_files = [] then Inl RuntimeError
         else Inr (last forest_files))"

subsection \<open>Aggregating the losses\<close>

text \<open>The body of the loop over the replicates: the loss of one replicate and whether it is a hit.\<close>

definition process_sim :: "outputs \<Rightarrow> real list \<Rightarrow> int \<Rightarrow> int \<Rightarrow> py_error + (real \<times> bool)" where
  "process_sim out pl_values col sim =
     (case get_last_forest_grid_for_sim out sim of
        Inl e \<Rightarrow> Inl e
      | Inr grid_file \<Rightarrow>
          (case loadtxt out sim grid_file of
             Inl e \<Rightarrow> Inl e
           | Inr final_grid \<Rightarrow>
               (case get_column final_grid col of
                  Inl e \<Rightarrow> Inl e
                | Inr grid_col \<Rightarrow>
                    (let burned_powerline = map (\<lambda>x. x = 1) grid_col
                     in case bool_index pl_values burned_powerline of
                          Inl e \<Rightarrow> Inl e
                        | Inr burned_values \<Rightarrow>
                            Inr (sum_list burned_values, list_ex id burned_powerline)))))"

text \<open>The loop: the state is the hit count and the list of losses so far.\<close>

fun sim_loop :: "outputs \<Rightarrow> real list \<Rightarrow> int \<Rightarrow> int list \<Rightarrow> nat \<times> real list
    \<Rightarrow> py_error + (nat \<times> real list)" where
  "sim_loop out pl_values col [] st = Inr st"
| "sim_loop out pl_values col (sim # sims) (hit_count, losses) =
     (case process_sim out pl_values col sim of
        Inl e \<Rightarrow> Inl e
      | Inr (loss_this_sim, hit) \<Rightarrow>
          sim_loop out pl_values col sims
            (if hit then hit_count + 1 else hit_count, losses @ [loss_this_sim]))"

text \<open>\<open>np.max\<close> of a non-empty list, as a running maximum.\<close>

definition np_max :: "real list \<Rightarrow> real" where
  "np_max xs = foldl max (hd xs) (tl xs)"

record report =
  n_sims :: int
  n_cells :: nat
  hit_count :: nat
  hit_rate :: real
  avg_loss :: real
  max_loss :: real

text \<open>
  \<open>evaluate_losses\<close>, returning the numbers it prints. Unpacking the shape of an array
  that is not two-dimensional raises ValueError; dividing by \<open>nsims = 0\<close> raises
  ZeroDivisionError; with a negative \<open>nsims\<close> the list of losses is empty and
  \<open>np.max\<close> raises ValueError.
\<close>

fun evaluate_losses :: "outputs \<Rightarrow> nparray \<Rightarrow> int \<Rightarrow> py_error + report" where
  "evaluate_losses out (Arr2 nrows ncols f) nsims =
     (let col = powerline_col_index (int ncols)
      in case get_column (Arr2 nrows ncols f) col of
           Inl e \<Rightarrow> Inl e
         | Inr pl_values \<Rightarrow>
             (case sim_loop out pl_values col [1..nsims] (0, []) of
                Inl e \<Rightarrow> Inl e
              | Inr (hits, losses) \<Rightarrow>
                  if nsims = 0 then Inl ZeroDivisionError
                  else if losses = [] then Inl ValueError
                  else Inr \<lparr>n_sims = nsims, n_cells = nrows, hit_count = hits,
                            hit_rate = real hits / real_of_int nsims,
                            avg_loss = sum_list losses / real (length losses),
                            max_loss = np_max losses\<rparr>))"
| "evaluate_losses out (Arr1 xs) nsims = Inl ValueError"
| "evaluate_losses out (Arr0 x) nsims = Inl ValueError"

subsection \<open>Reading the text files\<close>

text \<open>The lines of a text, each ended by a line feed, and the words of a line between spaces.\<close>

fun lines_acc :: "string \<Rightarrow> string \<Rightarrow> string list" where
  "lines_acc cur [] = (if cur = [] then [] else [cur])"
| "lines_acc cur (c # cs) =
     (if c = newline then cur # lines_acc [] cs else lines_acc (cur @ [c]) cs)"

definition text_lines :: "string \<Rightarrow> string list" where
  "text_lines s = lines_acc [] s"

fun words_acc :: "string \<Rightarrow> string \<Rightarrow> string list" where
  "words_acc cur [] = (if cur = [] then [] else [cur])"
| "words_acc cur (c # cs) =
     (if c = CHR '' '' then (if cur = [] then words_acc [] cs else cur # words_acc [] cs)
      else words_acc (cur @ [c]) cs)"

definition text_words :: "string \<Rightarrow> string list" where
  "text_words s = words_acc [] s"

text \<open>
  Modelled from the spec: the reader of the custom value file is the simulator, which is not
  part of the sources. The spec describes the file as whitespace-delimited text, one line per
  grid row, one decimal-formatted value per column; reading it back gives the rows of values,
  each value the number its decimal text denotes.
\<close>

definition digit_val :: "char \<Rightarrow> nat" where
  "digit_val c = of_char c - 48"

definition nat_of_digits :: "string \<Rightarrow> nat" where
  "nat_of_digits ds = foldl (\<lambda>a c. 10 * a + digit_val c) 0 ds"

definition parse_decimal :: "string \<Rightarrow> real" where
  "parse_decimal s =
     (let neg = (s \<noteq> [] \<and> hd s = CHR ''-'');
          body = (if neg then tl s else s);
          ip = takeWhile (\<lambda>c. c \<noteq> CHR ''.'') body;
          fp = drop 1 (dropWhile (\<lambda>c. c \<noteq> CHR ''.'') body);
          v = real (nat_of_digits ip) + real (nat_of_digits fp) / 10 ^ length fp
      in if neg then - v else v)"

definition read_values :: "string \<Rightarrow> real list list" where
  "read_values s = map (\<lambda>l. map parse_decimal (text_words l)) (text_lines s)"

subsection \<open>Concrete scenarios\<close>

text \<open>An output folder whose first replicate has two grid files and a stray file, and no other replicate.\<close>

definition demo_out :: outputs where
  "demo_out =
     \<lparr>listing = (\<lambda>s. if s = 1 then [''ForestGrid10.csv'', ''notes.txt'', ''ForestGrid09.csv''] else []),
      loadtxt = (\<lambda>s n. Inl OSError)\<rparr>"

text \<open>
  The scenario of the spec: a 4 by 4 value map with the line in column 1, a first replicate
  whose column 1 is burned, a second whose column 1 is not (another column is).
\<close>

definition scenario_cells :: "nat \<Rightarrow> nat \<Rightarrow> real" where
  "scenario_cells i j = (if j = 1 then 100 else 1)"

definition burned_cells :: "nat \<Rightarrow> nat \<Rightarrow> real" where
  "burned_cells i j = (if j = 1 then 1 else 0)"

definition clear_cells :: "nat \<Rightarrow> nat \<Rightarrow> real" where
  "clear_cells i j = (if j = 3 then 1 else 0)"

definition scenario_values :: nparray where
  "scenario_values = Arr2 4 4 scenario_cells"

definition scenario_out :: outputs where
  "scenario_out =
     \<lparr>listing = (\<lambda>s. if s = 1 \<or> s = 2 then [''ForestGrid0.csv'', ''ForestGrid1.csv''] else []),
      loadtxt = (\<lambda>s n.
        if n = ''ForestGrid1.csv'' \<and> s = 1 then Inr (Arr2 4 4 burned_cells)
        else if n = ''ForestGrid1.csv'' \<and> s = 2 then Inr (Arr2 4 4 clear_cells)
        else Inl OSError)\<rparr>"

text \<open>
  An output folder whose only replicate has a grid of 4 rows and 5 columns, column 1 burned
  in the first two rows.
\<close>

definition wide_cells :: "nat \<Rightarrow> nat \<Rightarrow> real" where
  "wide_cells i j = (if j = 1 \<and> i < 2 then 1 else 0)"

definition wide_out :: outputs where
  "wide_out =
     \<lparr>listing = (\<lambda>s. if s = 1 then [''ForestGrid1.csv''] else []),
      loadtxt = (\<lambda>s n.
        if n = ''ForestGrid1.csv'' \<and> s = 1 then Inr (Arr2 4 5 wide_cells) else Inl OSError)\<rparr>"

text \<open>An output folder whose only replicate has a grid of 3 rows and 4 columns, column 1 burned.\<close>

definition short_out :: outputs where
  "short_out =
     \<lparr>listing = (\<lambda>s. if s = 1 then [''ForestGrid1.csv''] else []),
      loadtxt = (\<lambda>s n.
        if n = ''ForestGrid1.csv'' \<and> s = 1 then Inr (Arr2 3 4 burned_cells) else Inl OSError)\<rparr>"

text \<open>
  The grids the loop body accepts for a value column of \<open>nrows\<close> entries: two-dimensional,
  with as many rows, and with a column at the index \<open>col\<close>.
\<close>

fun grid_fits :: "nat \<Rightarrow> int \<Rightarrow> nparray \<Rightarrow> bool" where
  "grid_fits nrows col (Arr2 r c g) \<longleftrightarrow> r = nrows \<and> (- int c \<le> col \<and> col < int c)"
| "grid_fits nrows col (Arr1 xs) \<longleftrightarrow> False"
| "grid_fits nrows col (Arr0 x) \<longleftrightarrow> False"

section \<open>Properties\<close>

subsection \<open>The replicate output locator\<close>

lemma sorted_le_last: "sorted xs \<Longrightarrow> x \<in> set xs \<Longrightarrow> x \<le> last xs"
  by (induction xs) auto

text \<open>
  Claim C6. The locator keeps the names of the replicate's grid folder that match the
  pattern and returns the last in name order: the result is a matching file of the folder
  that no matching file exceeds. It raises RuntimeError exactly when no name matches, so
  a replicate without output never yields a path.
\<close>

theorem locator_last_or_error:
  "(case get_last_forest_grid_for_sim out sim of
      Inl e \<Rightarrow> e = RuntimeError \<and> (\<forall>n \<in> set (listing out sim). \<not> forest_grid_name n)
    | Inr p \<Rightarrow> p \<in> set (listing out sim) \<and> forest_grid_name p
        \<and> (\<forall>q \<in> set (listing out sim). forest_grid_name q \<longrightarrow> q \<le> p))"
proof (cases "filter forest_grid_name (listing out sim) = []")
  case True
  then have "get_last_forest_grid_for_sim out sim = Inl RuntimeError"
    by (simp add: get_last_forest_grid_for_sim_def)
  moreover from True have "\<forall>n \<in> set (listing out sim). \<not> forest_grid_name n"
    by (simp add: filter_empty_conv)
  ultimately show ?thesis by simp
next
  case False
  let ?fs = "sort (filter forest_grid_name (listing out sim))"
  from False have ne: "?fs \<noteq> []"
    by (metis length_sort length_0_conv)
  then have res: "get_last_forest_grid_for_sim out sim = Inr (last ?fs)"
    by (simp add: get_last_forest_grid_for_sim_def Let_def)
  from ne have "last ?fs \<in> set ?fs" by (rule last_in_set)
  then have mem: "last ?fs \<in> set (listing out sim) \<and> forest_grid_name (last ?fs)"
    by simp
  have "\<forall>q \<in> set (listing out sim). forest_grid_name q \<longrightarrow> q \<le> last ?fs"
  proof (intro ballI impI)
    fix q assume "q \<in> set (listing out sim)" "forest_grid_name q"
    then have "q \<in> set ?fs" by simp
    then show "q \<le> last ?fs" by (intro sorted_le_last) simp_all
  qed
  with res mem show ?thesis by simp
qed

theorem locator_last_or_error_witness:
  "get_last_forest_grid_for_sim demo_out 1 = Inr ''ForestGrid10.csv''
   \<and> ''ForestGrid09.csv'' \<le> ''ForestGrid10.csv''
   \<and> get_last_forest_grid_for_sim demo_out 2 = Inl RuntimeError"
proof -
  have r1: "get_last_forest_grid_for_sim demo_out 1 = Inr ''ForestGrid10.csv''"
    by (simp add: get_last_forest_grid_for_sim_def demo_out_def forest_grid_name_def)
  have r2: "get_last_forest_grid_for_sim demo_out 2 = Inl RuntimeError"
    by (simp add: get_last_forest_grid_for_sim_def demo_out_def)
  have f: "forest_grid_name ''ForestGrid09.csv''"
    by (simp add: forest_grid_name_def)
  have "\<forall>q \<in> set (listing demo_out 1). forest_grid_name q \<longrightarrow> q \<le> ''ForestGrid10.csv''"
    using locator_last_or_error [of demo_out 1] r1 by simp
  moreover have "''ForestGrid09.csv'' \<in> set (listing demo_out 1)"
    by (simp add: demo_out_def)
  ultimately have "''ForestGrid09.csv'' \<le> ''ForestGrid10.csv''"
    using f by blast
  with r1 r2 show ?thesis by simp
qed

subsection \<open>Facts about the aggregation loop\<close>

lemma np_max_eq_Max: "xs \<noteq> [] \<Longrightarrow> np_max xs = Max (set xs)"
proof -
  assume "xs \<noteq> []"
  then obtain y ys where xs: "xs = y # ys" by (cases xs) auto
  have "foldl max y ys = fold max ys y"
    by (simp add: foldl_conv_fold max.commute)
  then show ?thesis
    unfolding np_max_def xs by (simp only: list.sel Max.set_eq_fold)
qed

lemma sum_selected:
  "length flags = length vals \<Longrightarrow>
   sum_list (map fst (filter snd (zip vals flags)))
     = (\<Sum>i<length vals. if flags ! i then vals ! i else 0)"
proof (induction vals flags rule: list_induct2')
  case (4 v vs b bs)
  then show ?case
    by (simp add: sum.lessThan_Suc_shift del: sum.lessThan_Suc cong: if_cong)
qed simp_all

lemma bool_index_Inr:
  "bool_index vals flags = Inr sel \<Longrightarrow>
   length flags = length vals \<and> sum_list sel = (\<Sum>i<length vals. if flags ! i then vals ! i else 0)"
  by (auto simp: bool_index_def sum_selected split: if_splits)

lemma get_column_Inr:
  "get_column a j = Inr col \<Longrightarrow>
   \<exists>r c f k. a = Arr2 r c f \<and> norm_index c j = Inr k \<and> col = map (\<lambda>i. f i k) [0..<r]"
  by (cases a) (auto split: sum.splits)


lemma process_sim_Inr:
  assumes "process_sim out pl_values col sim = Inr (loss, hit)"
  shows "\<exists>path c g k.
           get_last_forest_grid_for_sim out sim = Inr path
         \<and> loadtxt out sim path = Inr (Arr2 (length pl_values) c g)
         \<and> norm_index c col = Inr k
         \<and> loss = (\<Sum>i<length pl_values. if g i k = 1 then pl_values ! i else 0)
         \<and> hit = (\<exists>i<length pl_values. g i k = 1)"
proof -
  from assms obtain path grid gcol sel where
    f: "get_last_forest_grid_for_sim out sim = Inr path" and
    l: "loadtxt out sim path = Inr grid" and
    c: "get_column grid col = Inr gcol" and
    b: "bool_index pl_values (map (\<lambda>x. x = 1) gcol) = Inr sel" and
    lo: "loss = sum_list sel" and
    hi: "hit = list_ex id (map (\<lambda>x. x = 1) gcol)"
    by (auto simp: process_sim_def Let_def split: sum.splits)
  from get_column_Inr [OF c] obtain r cc g k where
    g: "grid = Arr2 r cc g" and k: "norm_index cc col = Inr k" and
    gc: "gcol = map (\<lambda>i. g i k) [0..<r]" by blast
  from bool_index_Inr [OF b] have len: "r = length pl_values"
    and s: "sum_list sel = (\<Sum>i<length pl_values. if map (\<lambda>x. x = 1) gcol ! i then pl_values ! i else 0)"
    by (simp_all add: gc)
  have "loss = (\<Sum>i<length pl_values. if g i k = 1 then pl_values ! i else 0)"
    unfolding lo s by (rule sum.cong) (simp_all add: gc len)
  moreover have "hit = (\<exists>i<length pl_values. g i k = 1)"
    by (auto simp: hi gc len list_ex_iff)
  ultimately show ?thesis using f l g k len by auto
qed

lemma sim_loop_Inr:
  "sim_loop out pl_values col sims (h, ls) = Inr (h', ls') \<Longrightarrow>
   \<exists>results. map (process_sim out pl_values col) sims = map Inr results
     \<and> h' = h + length (filter snd results) \<and> ls' = ls @ map fst results"
proof (induction sims arbitrary: h ls)
  case Nil
  then show ?case by simp
next
  case (Cons s sims)
  from Cons.prems obtain loss hit where
    p: "process_sim out pl_values col s = Inr (loss, hit)" and
    r: "sim_loop out pl_values col sims (if hit then h + 1 else h, ls @ [loss]) = Inr (h', ls')"
    by (auto split: sum.splits)
  from Cons.IH [OF r] obtain results where
    m: "map (process_sim out pl_values col) sims = map Inr results" and
    hh: "h' = (if hit then h + 1 else h) + length (filter snd results)" and
    ll: "ls' = (ls @ [loss]) @ map fst results" by blast
  have "map (process_sim out pl_values col) (s # sims) = map Inr ((loss, hit) # results)"
    using p m by simp
  moreover have "h' = h + length (filter snd ((loss, hit) # results))"
    using hh by simp
  moreover have "ls' = ls @ map fst ((loss, hit) # results)"
    using ll by simp
  ultimately show ?case by blast
qed



lemma sim_loop_fails:
  "s \<in> set sims \<Longrightarrow> process_sim out pl col s = Inl e \<Longrightarrow> \<exists>e'. sim_loop out pl col sims st = Inl e'"
proof (cases "sim_loop out pl col sims st")
  case (Inl a)
  then show ?thesis by blast
next
  case (Inr r)
  assume s: "s \<in> set sims" and p: "process_sim out pl col s = Inl e"
  obtain h ls where st: "st = (h, ls)" by (cases st)
  obtain h' ls' where r: "r = (h', ls')" by (cases r)
  from sim_loop_Inr [of out pl col sims h ls h' ls'] Inr st r obtain results where
    "map (process_sim out pl col) sims = map Inr results" by auto
  then have "process_sim out pl col s \<in> set (map Inr results)"
    using s by (metis image_eqI set_map)
  with p show ?thesis by auto
qed

lemma process_sim_succeeds_iff:
  assumes "get_last_forest_grid_for_sim out s = Inr p" and "loadtxt out s p = Inr grid"
  shows "(\<exists>res. process_sim out pl col s = Inr res)
     \<longleftrightarrow> (\<exists>c g k. grid = Arr2 (length pl) c g \<and> norm_index c col = Inr k)"
proof
  assume "\<exists>res. process_sim out pl col s = Inr res"
  then obtain loss hit where "process_sim out pl col s = Inr (loss, hit)" by auto
  from process_sim_Inr [OF this] assms show "\<exists>c g k. grid = Arr2 (length pl) c g \<and> norm_index c col = Inr k"
    by auto
next
  assume "\<exists>c g k. grid = Arr2 (length pl) c g \<and> norm_index c col = Inr k"
  then obtain c g k where "grid = Arr2 (length pl) c g" "norm_index c col = Inr k" by blast
  with assms show "\<exists>res. process_sim out pl col s = Inr res"
    by (simp add: process_sim_def bool_index_def Let_def)
qed

lemma evaluate_losses_Inr:
  assumes "evaluate_losses out (Arr2 nrows ncols v) nsims = Inr rep"
  shows "\<exists>k results.
       norm_index ncols (powerline_col_index (int ncols)) = Inr k
     \<and> 1 \<le> nsims \<and> length results = nat nsims
     \<and> map (process_sim out (map (\<lambda>i. v i k) [0..<nrows]) (powerline_col_index (int ncols))) [1..nsims]
         = map Inr results
     \<and> rep = \<lparr>n_sims = nsims, n_cells = nrows, hit_count = length (filter snd results),
               hit_rate = real (length (filter snd results)) / real_of_int nsims,
               avg_loss = sum_list (map fst results) / real_of_int nsims,
               max_loss = Max (set (map fst results))\<rparr>"
proof -
  let ?col = "powerline_col_index (int ncols)"
  from assms obtain pl where pl: "get_column (Arr2 nrows ncols v) ?col = Inr pl"
    by (auto simp: Let_def split: sum.splits)
  then obtain k where k: "norm_index ncols ?col = Inr k" and plk: "pl = map (\<lambda>i. v i k) [0..<nrows]"
    by (auto split: sum.splits)
  from assms pl obtain hits losses where
    loop: "sim_loop out pl ?col [1..nsims] (0, []) = Inr (hits, losses)"
    by (auto simp: Let_def split: sum.splits)
  from assms pl loop have n0: "nsims \<noteq> 0" and ne: "losses \<noteq> []"
    and rep: "rep = \<lparr>n_sims = nsims, n_cells = nrows, hit_count = hits,
                     hit_rate = real hits / real_of_int nsims,
                     avg_loss = sum_list losses / real (length losses),
                     max_loss = np_max losses\<rparr>"
    by (auto simp: Let_def split: if_splits)
  from sim_loop_Inr [OF loop] obtain results where
    m: "map (process_sim out pl ?col) [1..nsims] = map Inr results" and
    h: "hits = length (filter snd results)" and l: "losses = map fst results" by auto
  from m have "length results = length [1..nsims]"
    by (metis length_map)
  then have len: "length results = nat nsims" by simp
  with ne l have pos: "1 \<le> nsims" by (cases "1 \<le> nsims") auto
  have "real (length losses) = real_of_int nsims"
    using l len pos by simp
  moreover have "np_max losses = Max (set (map fst results))"
    using ne l by (simp add: np_max_eq_Max)
  ultimately have "rep = \<lparr>n_sims = nsims, n_cells = nrows, hit_count = length (filter snd results),
               hit_rate = real (length (filter snd results)) / real_of_int nsims,
               avg_loss = sum_list (map fst results) / real_of_int nsims,
               max_loss = Max (set (map fst results))\<rparr>"
    using rep h l by simp
  with k len pos m plk show ?thesis by blast
qed

subsection \<open>The report\<close>


subsection \<open>Evaluating the scenarios\<close>

lemma upt_0_4: "[0..<4] = [0, 1, 2, 3]"
  by (simp add: upt_rec)

lemma scenario_eval:
  "evaluate_losses scenario_out scenario_values 2 =
     Inr \<lparr>n_sims = 2, n_cells = 4, hit_count = 1, hit_rate = 1 / 2, avg_loss = 200, max_loss = 400\<rparr>"
  by (simp add: scenario_out_def scenario_values_def scenario_cells_def burned_cells_def clear_cells_def powerline_col_index_def norm_index_def
      process_sim_def get_last_forest_grid_for_sim_def forest_grid_name_def bool_index_def
      np_max_def Let_def upto.simps upt_0_4)

lemma wide_eval:
  "evaluate_losses wide_out scenario_values 1 =
     Inr \<lparr>n_sims = 1, n_cells = 4, hit_count = 1, hit_rate = 1, avg_loss = 200, max_loss = 200\<rparr>"
  by (simp add: wide_out_def wide_cells_def scenario_values_def scenario_cells_def powerline_col_index_def norm_index_def
      process_sim_def get_last_forest_grid_for_sim_def forest_grid_name_def bool_index_def
      np_max_def Let_def upto.simps upt_0_4)

lemma short_eval:
  "evaluate_losses short_out scenario_values 1 = Inl IndexError"
  by (simp add: short_out_def burned_cells_def scenario_values_def scenario_cells_def powerline_col_index_def norm_index_def
      process_sim_def get_last_forest_grid_for_sim_def forest_grid_name_def bool_index_def
      np_max_def Let_def upto.simps upt_0_4)

lemma zero_eval:
  "evaluate_losses scenario_out scenario_values 0 = Inl ZeroDivisionError"
  by (simp add: scenario_values_def scenario_cells_def powerline_col_index_def norm_index_def Let_def upto.simps)

lemma neg_eval:
  "evaluate_losses scenario_out scenario_values (-3) = Inl ValueError"
  by (simp add: scenario_values_def scenario_cells_def powerline_col_index_def norm_index_def Let_def upto.simps)

lemma missing_eval:
  "evaluate_losses scenario_out scenario_values 3 = Inl RuntimeError"
  by (simp add: scenario_out_def scenario_values_def scenario_cells_def burned_cells_def clear_cells_def powerline_col_index_def norm_index_def
      process_sim_def get_last_forest_grid_for_sim_def forest_grid_name_def bool_index_def
      np_max_def Let_def upto.simps upt_0_4)

subsection \<open>Bounds on the report\<close>

text \<open>
  Claim C8. Every report has a replicate count of at least 1, a hit rate between 0 and 1,
  and a hit count of at most the replicate count.
\<close>

theorem hit_rate_bounds:
  assumes "evaluate_losses out values nsims = Inr rep"
  shows "1 \<le> nsims \<and> 0 \<le> hit_rate rep \<and> hit_rate rep \<le> 1 \<and> int (hit_count rep) \<le> nsims"
proof -
  from assms obtain nrows ncols v where v: "values = Arr2 nrows ncols v"
    by (cases "values") auto
  from evaluate_losses_Inr [OF assms [unfolded v]] obtain k results where
    pos: "1 \<le> nsims" and len: "length results = nat nsims" and
    rep: "rep = \<lparr>n_sims = nsims, n_cells = nrows, hit_count = length (filter snd results),
               hit_rate = real (length (filter snd results)) / real_of_int nsims,
               avg_loss = sum_list (map fst results) / real_of_int nsims,
               max_loss = Max (set (map fst results))\<rparr>"
    by blast
  have le: "length (filter snd results) \<le> nat nsims"
    using len length_filter_le [of snd results] by simp
  then have c: "int (hit_count rep) \<le> nsims"
    using rep pos by simp
  have "real (length (filter snd results)) \<le> real_of_int nsims"
    using le pos by (metis c rep of_int_le_iff of_int_of_nat_eq report.select_convs(3))
  then have "hit_rate rep \<le> 1"
    using rep pos by (simp add: divide_le_eq_1)
  moreover have "0 \<le> hit_rate rep"
    using rep pos by simp
  ultimately show ?thesis using pos c by simp
qed

text \<open>The bounds at the scenario of the spec.\<close>

theorem hit_rate_bounds_witness:
  "evaluate_losses scenario_out scenario_values 2
     = Inr \<lparr>n_sims = 2, n_cells = 4, hit_count = 1, hit_rate = 1 / 2, avg_loss = 200, max_loss = 400\<rparr>
   \<and> (0::real) \<le> 1 / 2 \<and> (1::real) / 2 \<le> 1 \<and> int 1 \<le> 2"
  using hit_rate_bounds [OF scenario_eval] scenario_eval by simp






subsection \<open>The value map builder\<close>

lemma upt_0_2: "[0..<2] = [0, 1]"
  by (simp add: upt_rec)

lemma dims_le_array_bytes:
  assumes "0 \<le> nrows" and "0 \<le> ncols"
  shows "nrows \<le> array_bytes nrows ncols" and "ncols \<le> array_bytes nrows ncols"
proof -
  let ?r = "if nrows = 0 then 1 else nrows" and ?c = "if ncols = 0 then 1 else ncols"
  have r: "1 \<le> ?r" "nrows \<le> ?r" and c: "1 \<le> ?c" "ncols \<le> ?c"
    using assms by auto
  have "?r * 1 \<le> ?r * ?c"
    using r c by (intro mult_left_mono) auto
  then have "?r \<le> 4 * ?r * ?c" using r by linarith
  with r show "nrows \<le> array_bytes nrows ncols"
    unfolding array_bytes_def by linarith
  have "1 * ?c \<le> ?r * ?c"
    using r c by (intro mult_right_mono) auto
  then have "?c \<le> 4 * ?r * ?c" using c by linarith
  with c show "ncols \<le> array_bytes nrows ncols"
    unfolding array_bytes_def by linarith
qed

lemma np_ones_Inr_iff:
  "np_ones nrows ncols = Inr a \<longleftrightarrow>
     0 \<le> nrows \<and> 0 \<le> ncols \<and> array_bytes nrows ncols \<le> max_intp
     \<and> a = Arr2 (nat nrows) (nat ncols) (\<lambda>i j. 1)"
  using dims_le_array_bytes [of nrows ncols]
  by (auto simp: np_ones_def)

lemma np_ones_Inl: "np_ones nrows ncols = Inl e \<Longrightarrow> e = ValueError"
  by (auto simp: np_ones_def split: if_splits)

lemma np_ones_too_big:
  "max_intp < array_bytes nrows ncols \<Longrightarrow> np_ones nrows ncols = Inl ValueError"
  by (simp add: np_ones_def)

lemma build_powerline_values_Inr:
  assumes "build_powerline_values nrows ncols = Inr (vf, vals)"
  shows "0 \<le> nrows \<and> 1 \<le> ncols
     \<and> vals = Arr2 (nat nrows) (nat ncols)
          (\<lambda>i j. if j = (if ncols = 1 then 0 else nat (ncols div 2 - 1)) then 100 else 1)
     \<and> norm_index (nat ncols) (powerline_col_index ncols)
          = Inr (if ncols = 1 then 0 else nat (ncols div 2 - 1))
     \<and> savetxt vals = Inr vf"
proof -
  from assms obtain ones where o: "np_ones nrows ncols = Inr ones"
    by (auto simp: build_powerline_values_def split: sum.splits)
  then have nn: "0 \<le> nrows" "0 \<le> ncols"
    and ones: "ones = Arr2 (nat nrows) (nat ncols) (\<lambda>i j. 1)"
    by (simp_all add: np_ones_Inr_iff)
  from assms o ones obtain k where k: "norm_index (nat ncols) (powerline_col_index ncols) = Inr k"
    and v: "vals = Arr2 (nat nrows) (nat ncols) (\<lambda>i j. if j = k then 100 else 1)"
    and t: "savetxt vals = Inr vf"
    by (auto simp: build_powerline_values_def split: sum.splits)
  from k nn have "1 \<le> ncols \<and> k = (if ncols = 1 then 0 else nat (ncols div 2 - 1))"
    by (auto simp: norm_index_def powerline_col_index_def split: if_splits)
  with nn k v t show ?thesis by simp
qed

lemma build_powerline_values_succeeds:
  assumes "0 \<le> nrows" "1 \<le> ncols" "array_bytes nrows ncols \<le> max_intp"
  shows "\<exists>vf vals. build_powerline_values nrows ncols = Inr (vf, vals)"
proof -
  have "\<exists>k. norm_index (nat ncols) (powerline_col_index ncols) = Inr k"
    using assms by (auto simp: norm_index_def powerline_col_index_def)
  moreover have "np_ones nrows ncols = Inr (Arr2 (nat nrows) (nat ncols) (\<lambda>i j. 1))"
    using assms by (simp add: np_ones_Inr_iff)
  ultimately show ?thesis
    by (auto simp: build_powerline_values_def)
qed

lemma small_array_bytes: "array_bytes 2 4 \<le> max_intp" "array_bytes 4 4 \<le> max_intp"
  "array_bytes 2 1 \<le> max_intp" "array_bytes 2 0 \<le> max_intp" "array_bytes 3 0 \<le> max_intp"
  by (simp_all add: array_bytes_def max_intp_def)

text \<open>
  Claim C3, amended. For non-negative dimensions whose size in bytes is within NumPy's
  limit: with at least two columns the builder returns a rows by cols array in which the
  column \<open>cols div 2 - 1\<close> holds 100 and every other cell 1; with one column the index -1
  denotes that column, which holds 100; with no column the column assignment raises
  IndexError. Beyond the limit no array is created and the builder raises ValueError. The
  builder is a function of \<open>(rows, cols)\<close>, so equal arguments give equal results.
\<close>

theorem value_map_cells:
  assumes "0 \<le> nrows" and "0 \<le> ncols"
  shows "(2 \<le> ncols \<and> array_bytes nrows ncols \<le> max_intp \<longrightarrow>
           (\<exists>vf f. build_powerline_values nrows ncols = Inr (vf, Arr2 (nat nrows) (nat ncols) f)
              \<and> (\<forall>i<nat nrows. \<forall>j<nat ncols.
                    f i j = (if int j = ncols div 2 - 1 then 100 else 1))))
       \<and> (ncols = 1 \<and> array_bytes nrows ncols \<le> max_intp \<longrightarrow>
           (\<exists>vf f. build_powerline_values nrows ncols = Inr (vf, Arr2 (nat nrows) 1 f)
              \<and> (\<forall>i<nat nrows. f i 0 = 100)))
       \<and> (ncols = 0 \<and> array_bytes nrows ncols \<le> max_intp \<longrightarrow>
           build_powerline_values nrows ncols = Inl IndexError)
       \<and> (max_intp < array_bytes nrows ncols \<longrightarrow>
           build_powerline_values nrows ncols = Inl ValueError)"
proof (intro conjI impI)
  assume c: "2 \<le> ncols \<and> array_bytes nrows ncols \<le> max_intp"
  then obtain vf vals where b: "build_powerline_values nrows ncols = Inr (vf, vals)"
    using build_powerline_values_succeeds [of nrows ncols] assms by auto
  from build_powerline_values_Inr [OF b] c
  have v: "vals = Arr2 (nat nrows) (nat ncols) (\<lambda>i j. if j = nat (ncols div 2 - 1) then 100 else 1)"
    by simp
  have "\<forall>i<nat nrows. \<forall>j<nat ncols.
      (if j = nat (ncols div 2 - 1) then 100 else 1) = (if int j = ncols div 2 - 1 then 100 else (1::real))"
    using c by auto
  with b v show "\<exists>vf f. build_powerline_values nrows ncols = Inr (vf, Arr2 (nat nrows) (nat ncols) f)
              \<and> (\<forall>i<nat nrows. \<forall>j<nat ncols. f i j = (if int j = ncols div 2 - 1 then 100 else 1))"
    by blast
next
  assume c: "ncols = 1 \<and> array_bytes nrows ncols \<le> max_intp"
  then obtain vf vals where b: "build_powerline_values nrows ncols = Inr (vf, vals)"
    using build_powerline_values_succeeds [of nrows ncols] assms by auto
  from build_powerline_values_Inr [OF b] c
  have "vals = Arr2 (nat nrows) 1 (\<lambda>i j. if j = 0 then 100 else 1)"
    by simp
  with b show "\<exists>vf f. build_powerline_values nrows ncols = Inr (vf, Arr2 (nat nrows) 1 f)
              \<and> (\<forall>i<nat nrows. f i 0 = 100)"
    by simp
next
  assume c: "ncols = 0 \<and> array_bytes nrows ncols \<le> max_intp"
  then have "np_ones nrows ncols = Inr (Arr2 (nat nrows) (nat ncols) (\<lambda>i j. 1))"
    using assms by (auto simp: np_ones_Inr_iff)
  with c show "build_powerline_values nrows ncols = Inl IndexError"
    by (simp add: build_powerline_values_def norm_index_def powerline_col_index_def)
next
  assume "max_intp < array_bytes nrows ncols"
  then show "build_powerline_values nrows ncols = Inl ValueError"
    by (simp add: build_powerline_values_def np_ones_too_big)
qed

text \<open>With no column the builder returns no array.\<close>

theorem value_map_zero_columns_counterexample:
  "build_powerline_values 3 0 = Inl IndexError"
proof -
  have "np_ones 3 0 = Inr (Arr2 (nat 3) (nat 0) (\<lambda>i j. 1))"
    by (simp add: np_ones_Inr_iff small_array_bytes)
  then show ?thesis
    by (simp add: build_powerline_values_def norm_index_def powerline_col_index_def)
qed

text \<open>
  The cases at two rows, and a number of rows beyond the limit: \<open>2 ^ 63\<close> rows raise
  ValueError whatever the number of columns.
\<close>

theorem value_map_cells_witness:
  "map_sum id (to_rows \<circ> snd) (build_powerline_values 2 4) = Inr [[1, 100, 1, 1], [1, 100, 1, 1]]
   \<and> map_sum id (to_rows \<circ> snd) (build_powerline_values 2 1) = Inr [[100], [100]]
   \<and> build_powerline_values 2 0 = Inl IndexError
   \<and> build_powerline_values (2 ^ 63) 2 = Inl ValueError
   \<and> build_powerline_values (2 ^ 63) 0 = Inl ValueError"
proof -
  have h: "(0::int) \<le> 2" by simp
  have h4: "(0::int) \<le> 4" and h1: "(0::int) \<le> 1" and h0: "(0::int) \<le> 0" by simp_all
  from value_map_cells [OF h h4] small_array_bytes obtain vf f where
    b: "build_powerline_values 2 4 = Inr (vf, Arr2 2 4 f)" and
    f: "\<forall>i<2. \<forall>j<4. f i j = (if int j = 1 then 100 else 1)" by auto
  from f have "f 0 0 = 1" "f 0 1 = 100" "f 0 2 = 1" "f 0 3 = 1" "f 1 0 = 1" "f 1 1 = 100" "f 1 2 = 1" "f 1 3 = 1"
    by simp_all
  then have r4: "to_rows (Arr2 2 4 f) = [[1, 100, 1, 1], [1, 100, 1, 1]]"
    by (simp add: upt_0_2 upt_0_4)
  from value_map_cells [OF h h1] small_array_bytes obtain vf1 f1 where
    b1: "build_powerline_values 2 1 = Inr (vf1, Arr2 2 1 f1)" and
    f1: "\<forall>i<2. f1 i 0 = 100" by auto
  from f1 have "f1 0 0 = 100" "f1 1 0 = 100" by simp_all
  then have r1: "to_rows (Arr2 2 1 f1) = [[100], [100]]"
    by (simp add: upt_0_2)
  from value_map_cells [OF h h0] small_array_bytes have b0: "build_powerline_values 2 0 = Inl IndexError"
    by simp
  have big: "(0::int) \<le> 2 ^ 63" by simp
  have "max_intp < array_bytes (2 ^ 63) 2" "max_intp < array_bytes (2 ^ 63) 0"
    by (simp_all add: array_bytes_def max_intp_def)
  with value_map_cells [OF big h] value_map_cells [OF big h0]
  have "build_powerline_values (2 ^ 63) 2 = Inl ValueError"
    "build_powerline_values (2 ^ 63) 0 = Inl ValueError" by simp_all
  with b r4 b1 r1 b0 show ?thesis by simp
qed

subsection \<open>Hits and positive losses\<close>

lemma uniform_loss_positive_iff:
  fixes g :: "nat \<Rightarrow> nat \<Rightarrow> real"
  shows "0 < (\<Sum>i<n. if g i k = 1 then (100::real) else 0) \<longleftrightarrow> (\<exists>i<n. g i k = 1)"
proof
  assume "0 < (\<Sum>i<n. if g i k = 1 then (100::real) else 0)"
  then show "\<exists>i<n. g i k = 1"
    by (rule contrapos_pp) simp
next
  assume "\<exists>i<n. g i k = 1"
  then obtain i where i: "i < n" "g i k = 1" by blast
  show "0 < (\<Sum>i<n. if g i k = 1 then (100::real) else 0)"
    by (rule sum_pos2 [of _ i]) (use i in auto)
qed

text \<open>
  Claim C9. With the value map of the builder, whose power-line column is 100 throughout, a
  replicate is a hit exactly when its loss is positive, and its loss is 0 exactly when it
  is not a hit.
\<close>

theorem hit_iff_positive_loss:
  assumes "build_powerline_values nrows ncols = Inr (vf, vals)"
      and "get_column vals (powerline_col_index ncols) = Inr pl"
      and "process_sim out pl (powerline_col_index ncols) sim = Inr (loss, hit)"
  shows "(hit \<longleftrightarrow> 0 < loss) \<and> (loss = 0 \<longleftrightarrow> \<not> hit)"
proof -
  let ?k = "if ncols = 1 then 0 else nat (ncols div 2 - 1)"
  from build_powerline_values_Inr [OF assms(1)] have
    v: "vals = Arr2 (nat nrows) (nat ncols) (\<lambda>i j. if j = ?k then 100 else 1)" and
    k: "norm_index (nat ncols) (powerline_col_index ncols) = Inr ?k" by simp_all
  from assms(2) have pl: "pl = map (\<lambda>i. 100) [0..<nat nrows]"
    unfolding v using k by simp
  from process_sim_Inr [OF assms(3)] obtain p c g j where
    "get_last_forest_grid_for_sim out sim = Inr p"
    "loadtxt out sim p = Inr (Arr2 (length pl) c g)"
    "norm_index c (powerline_col_index ncols) = Inr j" and
    l: "loss = (\<Sum>i<length pl. if g i j = 1 then pl ! i else 0)" and
    h: "hit = (\<exists>i<length pl. g i j = 1)" by blast
  have "loss = (\<Sum>i<nat nrows. if g i j = 1 then 100 else 0)"
    unfolding l by (rule sum.cong) (simp_all add: pl)
  moreover have "hit = (\<exists>i<nat nrows. g i j = 1)"
    using h by (simp add: pl)
  ultimately have a: "hit \<longleftrightarrow> 0 < loss"
    using uniform_loss_positive_iff [of g j "nat nrows"] by simp
  have "0 \<le> loss"
    unfolding l by (rule sum_nonneg) (simp add: pl)
  with a show ?thesis by auto
qed

lemma scenario_build: "\<exists>vf. build_powerline_values 4 4 = Inr (vf, scenario_values)"
  by (simp add: build_powerline_values_def np_ones_def array_bytes_def max_intp_def
      powerline_col_index_def norm_index_def scenario_values_def scenario_cells_def fun_eq_iff)

lemma scenario_column: "get_column scenario_values 1 = Inr [100, 100, 100, 100]"
  by (simp add: scenario_values_def scenario_cells_def norm_index_def upt_0_4)

lemma scenario_sim_1: "process_sim scenario_out [100, 100, 100, 100] 1 1 = Inr (400, True)"
  by (simp add: scenario_out_def burned_cells_def norm_index_def
      process_sim_def get_last_forest_grid_for_sim_def forest_grid_name_def bool_index_def
      Let_def upt_0_4)

lemma scenario_sim_2: "process_sim scenario_out [100, 100, 100, 100] 1 2 = Inr (0, False)"
  by (simp add: scenario_out_def clear_cells_def norm_index_def
      process_sim_def get_last_forest_grid_for_sim_def forest_grid_name_def bool_index_def
      Let_def upt_0_4)

text \<open>Both replicates of the scenario.\<close>

theorem hit_iff_positive_loss_witness:
  "process_sim scenario_out [100, 100, 100, 100] 1 1 = Inr (400, True) \<and> (True \<longleftrightarrow> (0::real) < 400)
   \<and> process_sim scenario_out [100, 100, 100, 100] 1 2 = Inr (0, False) \<and> ((0::real) = 0 \<longleftrightarrow> \<not> False)"
proof -
  from scenario_build obtain vf where b: "build_powerline_values 4 4 = Inr (vf, scenario_values)" ..
  have i: "powerline_col_index 4 = 1" by (simp add: powerline_col_index_def)
  have c: "get_column scenario_values (powerline_col_index 4) = Inr [100, 100, 100, 100]"
    using scenario_column i by simp
  have s1: "process_sim scenario_out [100, 100, 100, 100] (powerline_col_index 4) 1 = Inr (400, True)"
    using scenario_sim_1 i by simp
  have s2: "process_sim scenario_out [100, 100, 100, 100] (powerline_col_index 4) 2 = Inr (0, False)"
    using scenario_sim_2 i by simp
  from hit_iff_positive_loss [OF b c s1] hit_iff_positive_loss [OF b c s2] scenario_sim_1 scenario_sim_2
  show ?thesis by simp
qed

subsection \<open>Grids of another shape\<close>

lemma norm_index_Inr_iff: "(\<exists>k. norm_index c col = Inr k) \<longleftrightarrow> - int c \<le> col \<and> col < int c"
  by (auto simp: norm_index_def)

lemma grid_fits_iff:
  "grid_fits n col grid \<longleftrightarrow> (\<exists>c g k. grid = Arr2 n c g \<and> norm_index c col = Inr k)"
proof (cases grid)
  case (Arr2 r c g)
  then show ?thesis
    using norm_index_Inr_iff [of c col] by auto
qed simp_all

lemma sim_loop_first_failure:
  "\<forall>t \<in> set pre. \<exists>res. process_sim out pl col t = Inr res \<Longrightarrow>
   process_sim out pl col s = Inl e \<Longrightarrow>
   sim_loop out pl col (pre @ s # post) st = Inl e"
proof (induction pre arbitrary: st)
  case Nil
  obtain h ls where "st = (h, ls)" by (cases st)
  with Nil show ?case by simp
next
  case (Cons t pre)
  obtain h ls where st: "st = (h, ls)" by (cases st)
  from Cons.prems obtain loss hit where p: "process_sim out pl col t = Inr (loss, hit)"
    by auto
  from Cons.prems have "\<forall>t \<in> set pre. \<exists>res. process_sim out pl col t = Inr res"
    by simp
  from Cons.IH [OF this Cons.prems(2)] show ?case
    unfolding st by (simp add: p)
qed

lemma process_sim_misfit:
  assumes "get_last_forest_grid_for_sim out s = Inr p" and "loadtxt out s p = Inr grid"
      and "\<not> grid_fits (length pl) col grid"
  shows "process_sim out pl col s = Inl IndexError"
proof (cases grid)
  case (Arr2 r c g)
  show ?thesis
  proof (cases "norm_index c col")
    case (Inl e)
    then have "e = IndexError" by (auto simp: norm_index_def split: if_splits)
    with Inl Arr2 assms(1,2) show ?thesis by (simp add: process_sim_def)
  next
    case (Inr j)
    then have "- int c \<le> col \<and> col < int c"
      using norm_index_Inr_iff [of c col] by auto
    with assms(3) Arr2 have "r \<noteq> length pl" by simp
    with Inr Arr2 assms(1,2) show ?thesis
      by (simp add: process_sim_def bool_index_def Let_def)
  qed
qed (use assms in \<open>simp_all add: process_sim_def\<close>)

lemma process_sim_fit:
  assumes "get_last_forest_grid_for_sim out s = Inr p" and "loadtxt out s p = Inr grid"
      and "grid_fits (length pl) col grid"
  shows "\<exists>c g j loss. grid = Arr2 (length pl) c g \<and> norm_index c col = Inr j
     \<and> process_sim out pl col s = Inr (loss, \<exists>i<length pl. g i j = 1)"
proof -
  from assms(3) obtain c g j where g: "grid = Arr2 (length pl) c g" and j: "norm_index c col = Inr j"
    using grid_fits_iff [of "length pl" col grid] by blast
  then obtain res where r: "process_sim out pl col s = Inr res"
    using process_sim_succeeds_iff [OF assms(1,2), of pl col] by blast
  obtain loss hit where res: "res = (loss, hit)" by (cases res)
  from process_sim_Inr [OF r [unfolded res]] assms(1,2) g j
  have "hit = (\<exists>i<length pl. g i j = 1)" by auto
  with g j r res show ?thesis by blast
qed

text \<open>
  Claim C7, amended. For a replicate whose final grid is located and loaded: when the grid is
  not two-dimensional, or has another number of rows than the value map, or has no column
  at the power-line index, the loop body raises IndexError; the aggregation then returns no
  report, and returns IndexError when the value map has a power-line column and every
  earlier replicate is processed without error. A grid that fits is processed without
  error and its hit flag is read from its own column at the power-line index; the number
  of columns is not compared, so a grid with the value map's rows and more columns is
  accepted.
\<close>

theorem shape_mismatch_detected:
  assumes "s \<in> {1..nsims}"
      and "get_last_forest_grid_for_sim out s = Inr p"
      and "loadtxt out s p = Inr grid"
  shows "(\<not> grid_fits (length pl) col grid \<longrightarrow> process_sim out pl col s = Inl IndexError)
       \<and> (grid_fits (length pl) col grid \<longrightarrow>
            (\<exists>c g j loss. grid = Arr2 (length pl) c g \<and> norm_index c col = Inr j
               \<and> process_sim out pl col s = Inr (loss, \<exists>i<length pl. g i j = 1)))
       \<and> (\<not> grid_fits nrows (powerline_col_index (int ncols)) grid \<longrightarrow>
            (\<exists>e. evaluate_losses out (Arr2 nrows ncols v) nsims = Inl e))
       \<and> (\<not> grid_fits nrows (powerline_col_index (int ncols)) grid
            \<and> (\<exists>k. get_column (Arr2 nrows ncols v) (powerline_col_index (int ncols)) = Inr k
                  \<and> (\<forall>t \<in> {1..<s}. \<exists>res.
                        process_sim out k (powerline_col_index (int ncols)) t = Inr res))
            \<longrightarrow> evaluate_losses out (Arr2 nrows ncols v) nsims = Inl IndexError)"
proof (intro conjI impI)
  assume "\<not> grid_fits (length pl) col grid"
  from process_sim_misfit [OF assms(2,3) this]
  show "process_sim out pl col s = Inl IndexError" .
next
  assume "grid_fits (length pl) col grid"
  from process_sim_fit [OF assms(2,3) this]
  show "\<exists>c g j loss. grid = Arr2 (length pl) c g \<and> norm_index c col = Inr j
               \<and> process_sim out pl col s = Inr (loss, \<exists>i<length pl. g i j = 1)" .
next
  let ?col = "powerline_col_index (int ncols)"
  assume nf: "\<not> grid_fits nrows ?col grid"
  show "\<exists>e. evaluate_losses out (Arr2 nrows ncols v) nsims = Inl e"
  proof (rule ccontr)
    assume "\<nexists>e. evaluate_losses out (Arr2 nrows ncols v) nsims = Inl e"
    then obtain rep where "evaluate_losses out (Arr2 nrows ncols v) nsims = Inr rep"
      by (cases "evaluate_losses out (Arr2 nrows ncols v) nsims") auto
    from evaluate_losses_Inr [OF this] obtain k results where
      m: "map (process_sim out (map (\<lambda>i. v i k) [0..<nrows]) ?col) [1..nsims] = map Inr results"
      by blast
    let ?pl = "map (\<lambda>i. v i k) [0..<nrows]"
    from assms(1) have "process_sim out ?pl ?col s \<in> set (map (process_sim out ?pl ?col) [1..nsims])"
      by simp
    then have "process_sim out ?pl ?col s \<in> set (map Inr results)"
      unfolding m .
    then have "\<exists>res. process_sim out ?pl ?col s = Inr res" by auto
    moreover have "process_sim out ?pl ?col s = Inl IndexError"
      using process_sim_misfit [OF assms(2,3), of ?pl ?col] nf by simp
    ultimately show False by simp
  qed
next
  let ?col = "powerline_col_index (int ncols)"
  assume a: "\<not> grid_fits nrows ?col grid
            \<and> (\<exists>k. get_column (Arr2 nrows ncols v) ?col = Inr k
                  \<and> (\<forall>t \<in> {1..<s}. \<exists>res. process_sim out k ?col t = Inr res))"
  then obtain pl' where c: "get_column (Arr2 nrows ncols v) ?col = Inr pl'"
    and pre: "\<forall>t \<in> {1..<s}. \<exists>res. process_sim out pl' ?col t = Inr res" by blast
  from c have len: "length pl' = nrows" by (auto split: sum.splits)
  from a have "process_sim out pl' ?col s = Inl IndexError"
    using process_sim_misfit [OF assms(2,3), of pl' ?col] len by simp
  moreover have "[1..nsims] = [1..s - 1] @ s # [s + 1..nsims]"
    using assms(1) by (intro upto_split3) auto
  moreover have "\<forall>t \<in> set [1..s - 1]. \<exists>res. process_sim out pl' ?col t = Inr res"
    using pre by auto
  ultimately have "sim_loop out pl' ?col [1..nsims] (0, []) = Inl IndexError"
    using sim_loop_first_failure [of "[1..s - 1]" out pl' ?col s IndexError "[s + 1..nsims]" "(0, [])"]
    by simp
  with c show "evaluate_losses out (Arr2 nrows ncols v) nsims = Inl IndexError"
    by simp
qed

lemma wide_located: "get_last_forest_grid_for_sim wide_out 1 = Inr ''ForestGrid1.csv''"
  by (simp add: wide_out_def get_last_forest_grid_for_sim_def forest_grid_name_def)

lemma short_located: "get_last_forest_grid_for_sim short_out 1 = Inr ''ForestGrid1.csv''"
  by (simp add: short_out_def get_last_forest_grid_for_sim_def forest_grid_name_def)

text \<open>A grid of 4 rows and 5 columns against a 4 by 4 value map yields a report.\<close>

theorem shape_mismatch_counterexample:
  "get_last_forest_grid_for_sim wide_out 1 = Inr ''ForestGrid1.csv''
   \<and> loadtxt wide_out 1 ''ForestGrid1.csv'' = Inr (Arr2 4 5 wide_cells)
   \<and> evaluate_losses wide_out (Arr2 4 4 scenario_cells) 1
       = Inr \<lparr>n_sims = 1, n_cells = 4, hit_count = 1, hit_rate = 1, avg_loss = 200, max_loss = 200\<rparr>"
  using wide_located wide_eval by (simp add: wide_out_def scenario_values_def)

text \<open>A grid of 3 rows is rejected; the grid of 5 columns is accepted.\<close>

theorem shape_mismatch_detected_witness:
  "\<not> grid_fits 4 (powerline_col_index (int 4)) (Arr2 3 4 burned_cells)
   \<and> process_sim short_out [100, 100, 100, 100] 1 1 = Inl IndexError
   \<and> evaluate_losses short_out (Arr2 4 4 scenario_cells) 1 = Inl IndexError
   \<and> grid_fits (length [100, 100, 100, 100 :: real]) 1 (Arr2 4 5 wide_cells)
   \<and> process_sim wide_out [100, 100, 100, 100] 1 1 = Inr (200, True)"
proof -
  have s: "(1::int) \<in> {1..1}" by simp
  have l: "loadtxt short_out 1 ''ForestGrid1.csv'' = Inr (Arr2 3 4 burned_cells)"
    by (simp add: short_out_def)
  have nf: "\<not> grid_fits 4 (powerline_col_index (int 4)) (Arr2 3 4 burned_cells)"
    by simp
  have nf': "\<not> grid_fits (length [100, 100, 100, 100 :: real]) 1 (Arr2 3 4 burned_cells)"
    by simp
  have c: "get_column (Arr2 4 4 scenario_cells) (powerline_col_index (int 4)) = Inr [100, 100, 100, 100]"
    by (simp add: powerline_col_index_def norm_index_def scenario_cells_def upt_0_4)
  have pre: "\<forall>t \<in> {1..<1::int}. \<exists>res.
      process_sim short_out [100, 100, 100, 100] (powerline_col_index (int 4)) t = Inr res"
    by simp
  note short = shape_mismatch_detected [OF s short_located l,
      where nrows = 4 and ncols = 4 and v = scenario_cells and pl = "[100, 100, 100, 100]" and col = 1]
  from short nf' have p: "process_sim short_out [100, 100, 100, 100] 1 1 = Inl IndexError"
    by blast
  from short nf c pre have e: "evaluate_losses short_out (Arr2 4 4 scenario_cells) 1 = Inl IndexError"
    by blast
  have lw: "loadtxt wide_out 1 ''ForestGrid1.csv'' = Inr (Arr2 4 5 wide_cells)"
    by (simp add: wide_out_def)
  have gf: "grid_fits (length [100, 100, 100, 100 :: real]) 1 (Arr2 4 5 wide_cells)"
    by simp
  with shape_mismatch_detected [OF s wide_located lw, where pl = "[100, 100, 100, 100]" and col = 1]
  have "\<exists>c g j loss. Arr2 4 5 wide_cells = Arr2 (length [100, 100, 100, 100 :: real]) c g
      \<and> norm_index c 1 = Inr j
      \<and> process_sim wide_out [100, 100, 100, 100] 1 1 = Inr (loss, \<exists>i<length [100, 100, 100, 100 :: real]. g i j = 1)"
    by blast
  moreover have "process_sim wide_out [100, 100, 100, 100] 1 1 = Inr (200, True)"
    by (simp add: wide_out_def wide_cells_def norm_index_def
      process_sim_def get_last_forest_grid_for_sim_def forest_grid_name_def bool_index_def
      Let_def upt_0_4)
  ultimately show ?thesis using nf p e gf by simp
qed

subsection \<open>When the aggregation returns a report\<close>

lemma sim_loop_succeeds:
  "\<forall>s \<in> set sims. \<exists>res. process_sim out pl col s = Inr res \<Longrightarrow>
   \<exists>r. sim_loop out pl col sims st = Inr r"
proof (induction sims arbitrary: st)
  case Nil
  then show ?case by simp
next
  case (Cons s sims)
  obtain h ls where st: "st = (h, ls)" by (cases st)
  from Cons.prems obtain loss hit where p: "process_sim out pl col s = Inr (loss, hit)"
    by auto
  from Cons.prems have "\<forall>s \<in> set sims. \<exists>res. process_sim out pl col s = Inr res"
    by simp
  from Cons.IH [OF this] show ?case
    unfolding st by (simp add: p)
qed

text \<open>
  The aggregation returns a report whenever there is at least one replicate, the value map
  has a power-line column, and every replicate's final grid is found, loads and fits.
\<close>

lemma evaluate_losses_succeeds:
  assumes "1 \<le> nsims"
      and "- int ncols \<le> powerline_col_index (int ncols)"
      and "\<forall>s \<in> {1..nsims}. \<exists>p grid.
             get_last_forest_grid_for_sim out s = Inr p \<and> loadtxt out s p = Inr grid
           \<and> grid_fits nrows (powerline_col_index (int ncols)) grid"
  shows "\<exists>rep. evaluate_losses out (Arr2 nrows ncols v) nsims = Inr rep"
proof -
  let ?col = "powerline_col_index (int ncols)"
  have "?col < int ncols"
    by (simp add: powerline_col_index_def)
  with assms(2) obtain k where k: "norm_index ncols ?col = Inr k"
    using norm_index_Inr_iff [of ncols ?col] by auto
  let ?pl = "map (\<lambda>i. v i k) [0..<nrows]"
  have "\<forall>s \<in> set [1..nsims]. \<exists>res. process_sim out ?pl ?col s = Inr res"
  proof
    fix s assume "s \<in> set [1..nsims]"
    then have "s \<in> {1..nsims}" by simp
    with assms(3) obtain p grid where
      l: "get_last_forest_grid_for_sim out s = Inr p" "loadtxt out s p = Inr grid" and
      f: "grid_fits nrows ?col grid" by blast
    from f have "grid_fits (length ?pl) ?col grid" by simp
    then show "\<exists>res. process_sim out ?pl ?col s = Inr res"
      using process_sim_succeeds_iff [OF l, of ?pl ?col] grid_fits_iff [of "length ?pl" ?col grid]
      by simp
  qed
  from sim_loop_succeeds [OF this] obtain hits losses where
    loop: "sim_loop out ?pl ?col [1..nsims] (0, []) = Inr (hits, losses)"
    by (metis surj_pair)
  from sim_loop_Inr [OF loop] obtain results where
    "map (process_sim out ?pl ?col) [1..nsims] = map Inr results" and
    ls: "losses = [] @ map fst results" by blast
  then have "length results = length [1..nsims]"
    by (metis length_map)
  with assms(1) ls have "losses \<noteq> []" by auto
  with k loop assms(1) show ?thesis
    by simp
qed

subsection \<open>The scenario of the spec\<close>

text \<open>
  Claim C2. For the 4 by 4 value map (rows \<open>[1, 100, 1, 1]\<close>, power line in column 1) and
  two replicates whose final grids have column 1 all 1 and all 0, the first replicate has
  loss 400 and is a hit, the second has loss 0 and is not, and the report has hit count 1,
  hit rate 0.5, mean loss 200 and maximum loss 400.
\<close>

theorem scenario_4x4:
  assumes "get_last_forest_grid_for_sim out 1 = Inr p1"
      and "loadtxt out 1 p1 = Inr (Arr2 4 4 g1)"
      and "\<forall>i<4. g1 i 1 = 1"
      and "get_last_forest_grid_for_sim out 2 = Inr p2"
      and "loadtxt out 2 p2 = Inr (Arr2 4 4 g2)"
      and "\<forall>i<4. g2 i 1 = 0"
  shows "\<exists>vf vals pl.
       build_powerline_values 4 4 = Inr (vf, vals)
     \<and> to_rows vals = [[1, 100, 1, 1], [1, 100, 1, 1], [1, 100, 1, 1], [1, 100, 1, 1]]
     \<and> powerline_col_index 4 = 1
     \<and> get_column vals 1 = Inr pl
     \<and> process_sim out pl 1 1 = Inr (400, True)
     \<and> process_sim out pl 1 2 = Inr (0, False)
     \<and> evaluate_losses out vals 2
         = Inr \<lparr>n_sims = 2, n_cells = 4, hit_count = 1, hit_rate = 1 / 2,
                avg_loss = 200, max_loss = 400\<rparr>"
proof -
  from scenario_build obtain vf where b: "build_powerline_values 4 4 = Inr (vf, scenario_values)" ..
  have rows: "to_rows scenario_values = [[1, 100, 1, 1], [1, 100, 1, 1], [1, 100, 1, 1], [1, 100, 1, 1]]"
    by (simp add: scenario_values_def scenario_cells_def upt_0_4)
  have idx: "powerline_col_index 4 = 1"
    by (simp add: powerline_col_index_def)
  from assms(3) have b1: "g1 0 1 = 1" "g1 1 1 = 1" "g1 2 1 = 1" "g1 3 1 = 1"
    by simp_all
  from assms(6) have b2: "g2 0 1 = 0" "g2 1 1 = 0" "g2 2 1 = 0" "g2 3 1 = 0"
    by simp_all
  have c1: "get_column (Arr2 4 4 g1) 1 = Inr [1, 1, 1, 1]"
    using b1 by (simp add: norm_index_def upt_0_4)
  have c2: "get_column (Arr2 4 4 g2) 1 = Inr [0, 0, 0, 0]"
    using b2 by (simp add: norm_index_def upt_0_4)
  have s1: "process_sim out [100, 100, 100, 100] 1 1 = Inr (400, True)"
    using assms(1,2) c1 by (simp add: process_sim_def bool_index_def)
  have s2: "process_sim out [100, 100, 100, 100] 1 2 = Inr (0, False)"
    using assms(4,5) c2 by (simp add: process_sim_def bool_index_def)
  have loop: "sim_loop out [100, 100, 100, 100] 1 [1..2] (0, []) = Inr (1, [400, 0])"
    using s1 s2 by (simp add: upto.simps)
  have ev: "evaluate_losses out scenario_values 2
      = Inr \<lparr>n_sims = 2, n_cells = 4, hit_count = 1, hit_rate = 1 / 2, avg_loss = 200, max_loss = 400\<rparr>"
    using scenario_column loop unfolding scenario_values_def
    by (simp add: idx np_max_def)
  from b rows idx scenario_column s1 s2 ev show ?thesis by blast
qed

lemma scenario_located: "get_last_forest_grid_for_sim scenario_out 1 = Inr ''ForestGrid1.csv''"
  "get_last_forest_grid_for_sim scenario_out 2 = Inr ''ForestGrid1.csv''"
  by (simp_all add: scenario_out_def get_last_forest_grid_for_sim_def forest_grid_name_def)

text \<open>The scenario with concrete grids; the second replicate burns outside the power line.\<close>

theorem scenario_4x4_witness:
  "evaluate_losses scenario_out scenario_values 2
     = Inr \<lparr>n_sims = 2, n_cells = 4, hit_count = 1, hit_rate = 1 / 2, avg_loss = 200, max_loss = 400\<rparr>
   \<and> process_sim scenario_out [100, 100, 100, 100] 1 1 = Inr (400, True)
   \<and> process_sim scenario_out [100, 100, 100, 100] 1 2 = Inr (0, False)"
proof -
  have l1: "loadtxt scenario_out 1 ''ForestGrid1.csv'' = Inr (Arr2 4 4 burned_cells)"
    by (simp add: scenario_out_def)
  have l2: "loadtxt scenario_out 2 ''ForestGrid1.csv'' = Inr (Arr2 4 4 clear_cells)"
    by (simp add: scenario_out_def)
  have h1: "\<forall>i<4. burned_cells i 1 = 1" by (simp add: burned_cells_def)
  have h2: "\<forall>i<4. clear_cells i 1 = 0" by (simp add: clear_cells_def)
  from scenario_4x4 [OF scenario_located(1) l1 h1 scenario_located(2) l2 h2]
  obtain vf vals pl where
    b: "build_powerline_values 4 4 = Inr (vf, vals)" and
    c: "get_column vals 1 = Inr pl" and
    r: "process_sim scenario_out pl 1 1 = Inr (400, True)"
       "process_sim scenario_out pl 1 2 = Inr (0, False)"
       "evaluate_losses scenario_out vals 2
         = Inr \<lparr>n_sims = 2, n_cells = 4, hit_count = 1, hit_rate = 1 / 2,
                avg_loss = 200, max_loss = 400\<rparr>" by blast
  from scenario_build b have v: "vals = scenario_values" by auto
  with c scenario_column have "pl = [100, 100, 100, 100]" by simp
  with r v show ?thesis by simp
qed



subsection \<open>Lines and words of the written text\<close>

lemma lines_acc_append:
  "newline \<notin> set l \<Longrightarrow> lines_acc cur (l @ rest) = lines_acc (cur @ l) rest"
  by (induction l arbitrary: cur) auto

lemma lines_acc_line:
  "newline \<notin> set l \<Longrightarrow> lines_acc [] (l @ newline # rest) = l # lines_acc [] rest"
  by (simp add: lines_acc_append)

lemma text_lines_concat:
  "\<forall>l \<in> set ls. newline \<notin> set l \<Longrightarrow> text_lines (concat (map (\<lambda>l. l @ [newline]) ls)) = ls"
  unfolding text_lines_def
  by (induction ls) (simp_all add: lines_acc_line)

lemma words_acc_append:
  "CHR '' '' \<notin> set w \<Longrightarrow> words_acc cur (w @ rest) = words_acc (cur @ w) rest"
  by (induction w arbitrary: cur) auto

lemma words_acc_join:
  "\<forall>w \<in> set ws. w \<noteq> [] \<and> CHR '' '' \<notin> set w \<Longrightarrow> words_acc [] (join '' '' ws) = ws"
proof (induction "'' ''" ws rule: join.induct)
  case 1
  then show ?case by simp
next
  case (2 x)
  then show ?case
    using words_acc_append [of x "[]" "[]"] by simp
next
  case (3 x y ys)
  then show ?case
    using words_acc_append [of x "[]" "CHR '' '' # join '' '' (y # ys)"] by simp
qed

lemma text_words_join:
  "\<forall>w \<in> set ws. w \<noteq> [] \<and> CHR '' '' \<notin> set w \<Longrightarrow> text_words (join '' '' ws) = ws"
  by (simp add: text_words_def words_acc_join)

lemma set_join_subset:
  "set (join sep xs) \<subseteq> set sep \<union> \<Union> (set ` set xs)"
  by (induction sep xs rule: join.induct) auto

lemma digit_char_digit: "d < 10 \<Longrightarrow> digit_char d \<in> set ''0123456789''"
  unfolding digit_char_def by (rule nth_mem) simp

lemma digits_of_digits: "set (digits_of n) \<subseteq> set ''0123456789''"
proof (induction n rule: digits_of.induct)
  case (1 n)
  show ?case
  proof (cases "n < 10")
    case True
    then show ?thesis
      using digit_char_digit [of n] by (subst digits_of.simps) simp
  next
    case False
    have "n mod 10 < 10" by simp
    from digit_char_digit [OF this] 1 [OF False] False show ?thesis
      by (subst digits_of.simps) simp
  qed
qed

lemma newline_notin_str_int: "newline \<notin> set (str_int i)"
  using digits_of_digits [of "nat i"] digits_of_digits [of "nat (- i)"]
  by (auto simp: str_int_def newline_def)

lemma format_1f_1: "format_1f 1 = ''1.0''"
  by (simp add: format_1f_def round_half_even_def digit_char_def digits_of.simps)

lemma format_1f_100: "format_1f 100 = ''100.0''"
  by (simp add: format_1f_def round_half_even_def digit_char_def digits_of.simps)

lemma parse_decimal_1: "parse_decimal ''1.0'' = 1"
  by (simp add: parse_decimal_def nat_of_digits_def digit_val_def)

lemma parse_decimal_100: "parse_decimal ''100.0'' = 100"
  by (simp add: parse_decimal_def nat_of_digits_def digit_val_def)

subsection \<open>The landscape files\<close>

lemma notin_join:
  assumes "c \<notin> set sep" and "\<forall>x \<in> set xs. c \<notin> set x"
  shows "c \<notin> set (join sep xs)"
  using set_join_subset [of sep xs] assms by blast

lemma row_values_no_newline: "newline \<notin> set (join '' '' (replicate n ''1''))"
  by (rule notin_join) (simp_all add: newline_def)

lemma row_values_words: "text_words (join '' '' (replicate n ''1'')) = replicate n ''1''"
  by (rule text_words_join) simp

lemma forest_asc_lines:
  "text_lines (build_forest_asc nrows ncols) =
     [''ncols '' @ str_int ncols, ''nrows '' @ str_int nrows, ''xllcorner 0'', ''yllcorner 0'',
      ''cellsize 100'', ''NODATA_value -9999'']
     @ replicate (nat nrows) (join '' '' (replicate (nat ncols) ''1''))"
proof -
  let ?row = "join '' '' (replicate (nat ncols) ''1'')"
  let ?ls = "[''ncols '' @ str_int ncols, ''nrows '' @ str_int nrows, ''xllcorner 0'', ''yllcorner 0'',
      ''cellsize 100'', ''NODATA_value -9999''] @ replicate (nat nrows) ?row"
  have e: "build_forest_asc nrows ncols = concat (map (\<lambda>l. l @ [newline]) ?ls)"
    by (simp add: build_forest_asc_def Let_def)
  have c: "newline \<notin> set ''ncols ''" "newline \<notin> set ''nrows ''" "newline \<notin> set ''xllcorner 0''"
    "newline \<notin> set ''yllcorner 0''" "newline \<notin> set ''cellsize 100''"
    "newline \<notin> set ''NODATA_value -9999''"
    by (simp_all add: newline_def)
  have nl: "\<forall>l \<in> set ?ls. newline \<notin> set l"
    using newline_notin_str_int [of ncols] newline_notin_str_int [of nrows]
      row_values_no_newline [of "nat ncols"] c
    by (auto split: if_splits)
  show ?thesis
    unfolding e by (rule text_lines_concat [OF nl])
qed

lemma data_csv_lines:
  "text_lines (build_data_csv nrows ncols) =
     (join '','' csv_header @ [CHR 0x0D])
     # replicate (nat (nrows * ncols)) (join '','' csv_row @ [CHR 0x0D])"
proof -
  let ?h = "join '','' csv_header @ [CHR 0x0D]"
  let ?r = "join '','' csv_row @ [CHR 0x0D]"
  let ?ls = "?h # replicate (nat (nrows * ncols)) ?r"
  have w: "\<And>cells. writerow cells = (join '','' cells @ [CHR 0x0D]) @ [newline]"
    by (simp add: writerow_def)
  have e: "build_data_csv nrows ncols = concat (map (\<lambda>l. l @ [newline]) ?ls)"
    unfolding build_data_csv_def Let_def w by simp
  have "newline \<notin> set ?h"
    by (simp add: csv_header_def newline_def)
  moreover have "newline \<notin> set ?r"
    by (simp add: csv_row_def newline_def)
  ultimately have nl: "\<forall>l \<in> set ?ls. newline \<notin> set l"
    by (simp split: if_splits)
  show ?thesis
    unfolding e by (rule text_lines_concat [OF nl])
qed

text \<open>
  Claim C4. For non-negative \<open>rows\<close> and \<open>cols\<close>, the raster file consists of the six header
  lines followed by exactly \<open>rows\<close> grid lines, each holding exactly \<open>cols\<close> values \<open>1\<close>
  separated by spaces, and the attribute table consists of the header record followed by
  exactly \<open>rows * cols\<close> data records, each the fixed record of a cell.
\<close>

theorem landscape_files_shape:
  assumes "0 \<le> nrows" and "0 \<le> ncols"
  shows "\<exists>grid records.
       text_lines (build_forest_asc nrows ncols) =
         [''ncols '' @ str_int ncols, ''nrows '' @ str_int nrows, ''xllcorner 0'', ''yllcorner 0'',
          ''cellsize 100'', ''NODATA_value -9999''] @ grid
     \<and> int (length grid) = nrows
     \<and> (\<forall>l \<in> set grid. text_words l = replicate (nat ncols) ''1''
            \<and> int (length (text_words l)) = ncols)
     \<and> text_lines (build_data_csv nrows ncols) = (join '','' csv_header @ [CHR 0x0D]) # records
     \<and> int (length records) = nrows * ncols
     \<and> (\<forall>r \<in> set records. r = join '','' csv_row @ [CHR 0x0D])"
proof -
  let ?grid = "replicate (nat nrows) (join '' '' (replicate (nat ncols) ''1''))"
  let ?records = "replicate (nat (nrows * ncols)) (join '','' csv_row @ [CHR 0x0D])"
  have "int (length ?grid) = nrows"
    using assms by simp
  moreover have "\<forall>l \<in> set ?grid. text_words l = replicate (nat ncols) ''1''
            \<and> int (length (text_words l)) = ncols"
    using assms by (simp add: row_values_words)
  moreover have "int (length ?records) = nrows * ncols"
    using assms by simp
  moreover have "\<forall>r \<in> set ?records. r = join '','' csv_row @ [CHR 0x0D]"
    by simp
  ultimately show ?thesis
    using forest_asc_lines [of nrows ncols] data_csv_lines [of nrows ncols] by blast
qed

text \<open>The files of a landscape of 2 rows and 3 columns.\<close>

theorem landscape_files_shape_witness:
  "text_lines (build_forest_asc 2 3) =
     [''ncols 3'', ''nrows 2'', ''xllcorner 0'', ''yllcorner 0'', ''cellsize 100'',
      ''NODATA_value -9999'', ''1 1 1'', ''1 1 1'']
   \<and> length (text_lines (build_data_csv 2 3)) = 7"
proof -
  have h: "(0::int) \<le> 2" "(0::int) \<le> 3" by simp_all
  from landscape_files_shape [OF h] obtain grid records where
    f: "text_lines (build_forest_asc 2 3) =
         [''ncols '' @ str_int 3, ''nrows '' @ str_int 2, ''xllcorner 0'', ''yllcorner 0'',
          ''cellsize 100'', ''NODATA_value -9999''] @ grid" and
    g: "int (length grid) = 2" and
    d: "text_lines (build_data_csv 2 3) = (join '','' csv_header @ [CHR 0x0D]) # records" and
    r: "int (length records) = 2 * 3" by blast
  have s: "str_int 3 = ''3''" "str_int 2 = ''2''"
    by (simp_all add: str_int_def digits_of.simps digit_char_def)
  have "text_lines (build_forest_asc 2 3) =
     [''ncols 3'', ''nrows 2'', ''xllcorner 0'', ''yllcorner 0'', ''cellsize 100'',
      ''NODATA_value -9999'', ''1 1 1'', ''1 1 1'']"
    using forest_asc_lines [of 2 3] s by (simp add: numeral_eq_Suc)
  moreover have "length (text_lines (build_data_csv 2 3)) = 7"
    using d r by simp
  ultimately show ?thesis by simp
qed

subsection \<open>The value file\<close>

lemma format_1f_cases: "x = 1 \<or> x = 100 \<Longrightarrow> format_1f x = ''1.0'' \<or> format_1f x = ''100.0''"
  using format_1f_1 format_1f_100 by auto

lemma parse_format: "x = 1 \<or> x = 100 \<Longrightarrow> parse_decimal (format_1f x) = x"
  using format_1f_1 format_1f_100 parse_decimal_1 parse_decimal_100 by auto

lemma value_line_words:
  assumes "\<forall>x \<in> set row. x = 1 \<or> x = 100"
  shows "map parse_decimal (text_words (join '' '' (map format_1f row))) = row"
proof -
  have "\<forall>w \<in> set (map format_1f row). w \<noteq> [] \<and> CHR '' '' \<notin> set w"
    using assms format_1f_cases by fastforce
  then have "text_words (join '' '' (map format_1f row)) = map format_1f row"
    by (rule text_words_join)
  moreover have "map parse_decimal (map format_1f row) = row"
    using assms by (simp add: parse_format map_idI)
  ultimately show ?thesis by simp
qed

lemma value_line_no_newline:
  assumes "\<forall>x \<in> set row. x = 1 \<or> x = 100"
  shows "newline \<notin> set (join '' '' (map format_1f row))"
proof -
  have "\<forall>w \<in> set (map format_1f row). newline \<notin> set w"
    using assms format_1f_cases by (fastforce simp: newline_def)
  then show ?thesis
    using set_join_subset [of "'' ''" "map format_1f row"] by (auto simp: newline_def)
qed

lemma read_values_rows:
  assumes "\<forall>row \<in> set rows. \<forall>x \<in> set row. x = 1 \<or> x = 100"
  shows "read_values (concat (map (\<lambda>row. join '' '' (map format_1f row) @ [newline]) rows)) = rows"
proof -
  let ?line = "\<lambda>row. join '' '' (map format_1f row)"
  have "concat (map (\<lambda>row. ?line row @ [newline]) rows)
      = concat (map (\<lambda>l. l @ [newline]) (map ?line rows))"
    by (simp add: comp_def)
  moreover have "\<forall>l \<in> set (map ?line rows). newline \<notin> set l"
    using assms value_line_no_newline by auto
  ultimately have "text_lines (concat (map (\<lambda>row. ?line row @ [newline]) rows)) = map ?line rows"
    using text_lines_concat [of "map ?line rows"] by simp
  then have "read_values (concat (map (\<lambda>row. ?line row @ [newline]) rows))
      = map (\<lambda>row. map parse_decimal (text_words (?line row))) rows"
    by (simp add: read_values_def comp_def)
  also have "\<dots> = rows"
    using assms by (simp add: value_line_words map_idI)
  finally show ?thesis .
qed

text \<open>
  Claim C5. Whenever the builder returns, reading back the text it wrote gives the rows of
  the array it returned: the file has one line per row, every value is 1 or 100, written as
  \<open>1.0\<close> or \<open>100.0\<close>, and read back as the same number.
\<close>

theorem value_file_round_trip:
  assumes "build_powerline_values nrows ncols = Inr (vf, vals)"
  shows "read_values vf = to_rows vals
     \<and> (\<forall>row \<in> set (to_rows vals). \<forall>x \<in> set row. x = 1 \<or> x = 100)
     \<and> text_lines vf = map (\<lambda>row. join '' '' (map format_1f row)) (to_rows vals)"
proof -
  let ?k = "if ncols = 1 then 0 else nat (ncols div 2 - 1)"
  let ?f = "\<lambda>(i::nat) j. if j = ?k then 100 else (1::real)"
  note built = build_powerline_values_Inr [OF assms]
  from built have v: "vals = Arr2 (nat nrows) (nat ncols) ?f" by (elim conjE)
  from built have s: "savetxt vals = Inr vf" by (elim conjE)
  let ?rows = "to_rows vals"
  have cells: "\<forall>row \<in> set ?rows. \<forall>x \<in> set row. x = 1 \<or> x = 100"
    unfolding v by auto
  from s have vf: "vf = concat (map (\<lambda>row. join '' '' (map format_1f row) @ [newline]) ?rows)"
    unfolding v by simp
  have r: "read_values vf = ?rows"
    unfolding vf by (rule read_values_rows [OF cells])
  let ?line = "\<lambda>row. join '' '' (map format_1f row)"
  have "concat (map (\<lambda>row. ?line row @ [newline]) ?rows)
      = concat (map (\<lambda>l. l @ [newline]) (map ?line ?rows))"
    by (simp add: comp_def)
  moreover have "\<forall>l \<in> set (map ?line ?rows). newline \<notin> set l"
    using cells value_line_no_newline by auto
  ultimately have "text_lines vf = map ?line ?rows"
    unfolding vf using text_lines_concat [of "map ?line ?rows"] by simp
  with r cells show ?thesis by simp
qed

text \<open>The value file of 2 rows and 4 columns.\<close>

theorem value_file_round_trip_witness:
  "map_sum id (read_values \<circ> fst) (build_powerline_values 2 4)
     = Inr [[1, 100, 1, 1], [1, 100, 1, 1]]
   \<and> map_sum id (text_lines \<circ> fst) (build_powerline_values 2 4)
     = Inr [''1.0 100.0 1.0 1.0'', ''1.0 100.0 1.0 1.0'']"
proof -
  obtain vf vals where b: "build_powerline_values 2 4 = Inr (vf, vals)"
    using build_powerline_values_succeeds [of 2 4] small_array_bytes by auto
  from build_powerline_values_Inr [OF b] have "vals = Arr2 2 4 (\<lambda>i j. if j = 1 then 100 else 1)"
    by simp
  then have rows: "to_rows vals = [[1, 100, 1, 1], [1, 100, 1, 1]]"
    by (simp add: upt_0_2 upt_0_4)
  from value_file_round_trip [OF b] rows have
    "read_values vf = [[1, 100, 1, 1], [1, 100, 1, 1]]"
    "text_lines vf = [''1.0 100.0 1.0 1.0'', ''1.0 100.0 1.0 1.0'']"
    by (simp_all add: format_1f_1 format_1f_100)
  with b show ?thesis by simp
qed

end
